theory Spec2Isabelle
  imports Complex_Main "HOL-Library.Log_Nat"
begin

section \<open>Python values, exceptions and containers\<close>

text \<open>
  The validator (\<^verbatim>\<open>src/subnet/validator/validator.py\<close>) and its task ledger
  (\<^verbatim>\<open>db/db_manager.py\<close>) are embedded as HOL functions. Every exception the Python
  code can raise is a value of \<open>py_error\<close>; a computation that may raise returns
  \<open>py_error + 'a\<close>, with \<open>Inl\<close> for the exception.
\<close>

datatype py_error =
    TypeError | KeyError | ValueError | IndexError | AttributeError
  | RuntimeError | OverflowError | ZeroDivisionError | AssertionError | IntegrityError
  | NameError

text \<open>
  A Python \<^verbatim>\<open>dict\<close> keeps its keys in insertion order, and both the tie-break of the
  sort in \<^verbatim>\<open>cut_to_max_allowed_weights\<close> and the order of the submitted vote depend on
  that order: a dict is an association list whose keys are distinct. \<open>dict_set\<close> is
  \<^verbatim>\<open>d[k] = v\<close> (an existing key keeps its position), \<open>py_dict\<close> is \<^verbatim>\<open>dict(pairs)\<close>.
\<close>

fun dict_set :: "('k \<times> 'v) list \<Rightarrow> 'k \<Rightarrow> 'v \<Rightarrow> ('k \<times> 'v) list" where
  "dict_set [] k v = [(k, v)]"
| "dict_set ((k', v') # d) k v = (if k' = k then (k', v) # d else (k', v') # dict_set d k v)"

definition py_dict :: "('k \<times> 'v) list \<Rightarrow> ('k \<times> 'v) list" where
  "py_dict pairs = foldl (\<lambda>d (k, v). dict_set d k v) [] pairs"

text \<open>\<^verbatim>\<open>xs[:n]\<close> for a Python integer \<open>n\<close>: a negative \<open>n\<close> counts from the end.\<close>

definition py_slice_to :: "'a list \<Rightarrow> int \<Rightarrow> 'a list" where
  "py_slice_to xs n = (if 0 \<le> n then take (nat n) xs else take (length xs - nat (- n)) xs)"

text \<open>
  \<^verbatim>\<open>max(iterable, key=f)\<close>: the first element, in iteration order, whose key is
  greatest (a later element replaces the best one only when its key is strictly
  greater); \<^verbatim>\<open>ValueError\<close> on an empty iterable.
\<close>

fun max_from :: "('a \<Rightarrow> nat) \<Rightarrow> 'a \<Rightarrow> 'a list \<Rightarrow> 'a" where
  "max_from key best [] = best"
| "max_from key best (x # xs) = max_from key (if key best < key x then x else best) xs"

definition py_max :: "'a list \<Rightarrow> ('a \<Rightarrow> nat) \<Rightarrow> py_error + 'a" where
  "py_max xs key = (case xs of [] \<Rightarrow> Inl ValueError | x # rest \<Rightarrow> Inr (max_from key x rest))"

section \<open>Python floats\<close>

text \<open>
  A Python \<^verbatim>\<open>float\<close> is an IEEE 754 double. A finite double is modelled by the rational
  number it denotes, and every arithmetic operation returns the exact result rounded
  to the nearest number with a 53-bit significand, ties to even, as IEEE 754 prescribes.
  The exponent range is not bounded: the model is exact for operations whose results
  lie in the normal range of doubles (magnitudes from \<open>2\<^sup>-\<^sup>1\<^sup>0\<^sup>2\<^sup>2\<close> up to \<open>2\<^sup>1\<^sup>0\<^sup>2\<^sup>4\<close>), which
  covers scores between 0 and 1 and their sums and quotients.
\<close>

type_synonym pyfloat = rat

text \<open>\<open>ilog2 x\<close> is the binary exponent of \<open>x > 0\<close>: \<open>2 powi ilog2 x \<le> x < 2 powi (ilog2 x + 1)\<close>.\<close>

definition ilog2 :: "rat \<Rightarrow> int" where
  "ilog2 x = (let k = bitlen (fst (quotient_of x)) - bitlen (snd (quotient_of x))
              in if 2 powi k \<le> x then k else k - 1)"

definition round_half_even :: "rat \<Rightarrow> int" where
  "round_half_even y =
     (let f = \<lfloor>y\<rfloor>; d = y - of_int f
      in if d < 1 / 2 then f else if 1 / 2 < d then f + 1 else if even f then f else f + 1)"

definition round_double :: "rat \<Rightarrow> pyfloat" where
  "round_double x =
     (if x = 0 then 0
      else let u = 2 powi (ilog2 \<bar>x\<bar> - 52)
           in sgn x * of_int (round_half_even (\<bar>x\<bar> / u)) * u)"

definition fadd :: "pyfloat \<Rightarrow> pyfloat \<Rightarrow> pyfloat" where
  "fadd x y = round_double (x + y)"

definition fmul :: "pyfloat \<Rightarrow> pyfloat \<Rightarrow> pyfloat" where
  "fmul x y = round_double (x * y)"

definition fdiv :: "pyfloat \<Rightarrow> pyfloat \<Rightarrow> py_error + pyfloat" where
  "fdiv x y = (if y = 0 then Inl ZeroDivisionError else Inr (round_double (x / y)))"

text \<open>
  \<^verbatim>\<open>sum(values)\<close>: starts from the integer 0 and adds from left to right. (From
  CPython 3.12 on the sum of floats is compensated; for the sums evaluated below, of up
  to two summands or with exact partial sums, the result is the same.)
\<close>

definition py_sum :: "pyfloat list \<Rightarrow> pyfloat" where
  "py_sum xs = foldl fadd 0 xs"

text \<open>\<^verbatim>\<open>int(x)\<close> of a float truncates towards zero.\<close>

definition py_int :: "pyfloat \<Rightarrow> int" where
  "py_int x = (if 0 \<le> x then \<lfloor>x\<rfloor> else \<lceil>x\<rceil>)"

section \<open>The task ledger (db\_manager.py)\<close>

text \<open>
  A \<^verbatim>\<open>Date\<close> is its proleptic Gregorian ordinal (\<^verbatim>\<open>date.toordinal()\<close>);
  \<^verbatim>\<open>date + timedelta(days=n)\<close> raises \<^verbatim>\<open>OverflowError\<close> outside
  \<^verbatim>\<open>date.min .. date.max\<close>.
\<close>

type_synonym date = int

definition date_max_ordinal :: int where
  "date_max_ordinal = 3652059"

definition date_add_days :: "date \<Rightarrow> int \<Rightarrow> py_error + date" where
  "date_add_days d n =
     (if 1 \<le> d + n \<and> d + n \<le> date_max_ordinal then Inr (d + n) else Inl OverflowError)"

record timetable_row =
  start_date :: date
  end_date :: date
  completed :: bool

record token_pair_row =
  pair_token_a :: string
  pair_token_b :: string
  pair_fee :: int
  pair_completed :: bool

text \<open>
  The stored state: the \<^verbatim>\<open>timetable\<close> relation, in the order its rows are stored
  (a query with no \<^verbatim>\<open>ORDER BY\<close> returns them in that order), one
  \<^verbatim>\<open>token_pairs_{start}_{end}\<close> relation per window, created on first access, and the
  event archive (the \<^verbatim>\<open>pool_data\<close> and event relations, one list of transaction hashes
  per pool; \<^verbatim>\<open>add_pool_data\<close> is its only writer, and the validator never calls it).
  \<open>autocommit\<close> tells how the engine treats a statement executed on a
  \<^verbatim>\<open>Connection\<close> that is closed with no \<^verbatim>\<open>commit()\<close>: SQLAlchemy 1.x commits a data
  changing statement at once, SQLAlchemy 2.x rolls the work back when the connection
  is closed.
\<close>

record db =
  timetable :: "timetable_row list"
  token_pairs :: "date \<times> date \<Rightarrow> token_pair_row list option"
  archive :: "string \<times> string \<times> int \<Rightarrow> string list option"
  autocommit :: bool

definition add_timetable_entry :: "date \<Rightarrow> date \<Rightarrow> db \<Rightarrow> (py_error + unit) \<times> db" where
  "add_timetable_entry start end d =
     (if start \<in> start_date ` set (timetable d) then (Inl IntegrityError, d)
      else (Inr (),
            d\<lparr>timetable := timetable d @ [\<lparr>start_date = start, end_date = end, completed = False\<rparr>]\<rparr>))"

definition fetch_incompleted_time_range :: "db \<Rightarrow> timetable_row list" where
  "fetch_incompleted_time_range d = filter (\<lambda>row. \<not> completed row) (timetable d)"

text \<open>\<^verbatim>\<open>order_by(Timetable.start.desc()).first()\<close>: the row with the greatest start.\<close>

definition fetch_last_time_range :: "db \<Rightarrow> timetable_row option" where
  "fetch_last_time_range d =
     (case timetable d of
        [] \<Rightarrow> None
      | row # rows \<Rightarrow>
          Some (foldl (\<lambda>best r. if start_date best < start_date r then r else best) row rows))"

fun complete_first :: "date \<Rightarrow> date \<Rightarrow> timetable_row list \<Rightarrow> timetable_row list" where
  "complete_first start end [] = []"
| "complete_first start end (row # rows) =
     (if start_date row = start \<and> end_date row = end then row\<lparr>completed := True\<rparr> # rows
      else row # complete_first start end rows)"

definition mark_time_range_as_complete :: "date \<Rightarrow> date \<Rightarrow> db \<Rightarrow> bool \<times> db" where
  "mark_time_range_as_complete start end d =
     (case find (\<lambda>row. start_date row = start \<and> end_date row = end) (timetable d) of
        Some found \<Rightarrow> (True, d\<lparr>timetable := complete_first start end (timetable d)\<rparr>)
      | None \<Rightarrow> (False, d))"

text \<open>
  \<^verbatim>\<open>ensure_table_exists(table_name, self.create_token_pairs_table, ...)\<close>: the relation of
  the window is created, empty, when it does not exist yet.
\<close>

definition ensure_token_pairs_table :: "date \<Rightarrow> date \<Rightarrow> db \<Rightarrow> db" where
  "ensure_token_pairs_table start end d =
     (case token_pairs d (start, end) of
        None \<Rightarrow> d\<lparr>token_pairs := (token_pairs d)((start, end) \<mapsto> [])\<rparr>
      | Some rows \<Rightarrow> d)"

definition pair_matches :: "string \<Rightarrow> string \<Rightarrow> int \<Rightarrow> token_pair_row \<Rightarrow> bool" where
  "pair_matches a b f row \<longleftrightarrow> pair_token_a row = a \<and> pair_token_b row = b \<and> pair_fee row = f"

text \<open>The \<^verbatim>\<open>UPDATE ... WHERE token_a = a AND token_b = b AND fee = f\<close>.\<close>

definition complete_pairs :: "string \<Rightarrow> string \<Rightarrow> int \<Rightarrow> token_pair_row list \<Rightarrow> token_pair_row list" where
  "complete_pairs a b f rows =
     map (\<lambda>row. if pair_matches a b f row then row\<lparr>pair_completed := True\<rparr> else row) rows"

text \<open>
  \<^verbatim>\<open>mark_token_pair_as_complete\<close> executes its \<^verbatim>\<open>UPDATE\<close> inside
  \<^verbatim>\<open>with self.engine.connect() as conn\<close> and returns; it never calls
  \<^verbatim>\<open>commit()\<close>. What is stored afterwards is the updated relation on an engine that
  autocommits, and the relation as it was otherwise.
\<close>

definition mark_token_pair_as_complete ::
  "date \<Rightarrow> date \<Rightarrow> string \<Rightarrow> string \<Rightarrow> int \<Rightarrow> db \<Rightarrow> bool \<times> db" where
  "mark_token_pair_as_complete start end a b f d =
     (let d1 = ensure_token_pairs_table start end d;
          rows = (case token_pairs d1 (start, end) of None \<Rightarrow> [] | Some rs \<Rightarrow> rs)
      in case find (pair_matches a b f) rows of
           Some found \<Rightarrow>
             (let updated = complete_pairs a b f rows
              in (True, if autocommit d1
                        then d1\<lparr>token_pairs := (token_pairs d1)((start, end) \<mapsto> updated)\<rparr>
                        else d1))
         | None \<Rightarrow> (False, d1))"

section \<open>The validator (validator.py)\<close>

subsection \<open>Time windows\<close>

definition get_time_range :: "db \<Rightarrow> (py_error + date \<times> date) \<times> db" where
  "get_time_range d =
     (let incompleted_time_range = fetch_incompleted_time_range d
      in case incompleted_time_range of
           [] \<Rightarrow>
             (case fetch_last_time_range d of
                None \<Rightarrow> (Inl TypeError, d)
              | Some last_time_range \<Rightarrow>
                  (let new_time_start = end_date last_time_range
                   in case date_add_days (end_date last_time_range) 1 of
                        Inl e \<Rightarrow> (Inl e, d)
                      | Inr new_time_end \<Rightarrow>
                          (case add_timetable_entry new_time_start new_time_end d of
                             (Inl e, d') \<Rightarrow> (Inl e, d')
                           | (Inr u, d') \<Rightarrow> (Inr (new_time_start, new_time_end), d'))))
         | row # rows \<Rightarrow> (Inr (start_date row, end_date row), d))"

subsection \<open>Prompts, answers and the worker directory\<close>

text \<open>
  A job description and a worker's answer are JSON objects; a key that may be absent is
  an \<open>option\<close> field, and \<open>other_keys\<close> are the keys of an answer that the validator
  never reads. The fingerprint \<^verbatim>\<open>overall_hash\<close> and the hash of a record are strings, a
  block number is an integer. An answer is \<open>None\<close> when the call to the worker failed
  (\<^verbatim>\<open>_get_miner_prediction\<close> catches every exception of the call and returns
  \<^verbatim>\<open>None\<close>).
\<close>

record miner_prompt =
  token_a :: "string option"
  token_b :: "string option"
  start_datetime :: "string option"
  end_datetime :: "string option"

record block_data =
  block_number :: "int option"
  hash :: "string option"

record miner_answer =
  overall_hash :: "string option"
  data :: "block_data list option"
  other_keys :: "string list"

text \<open>
  What one round reads from outside the process: the chain client's two maps and the
  validator's own address, the regular expression search of \<^verbatim>\<open>extract_address\<close>
  (\<^verbatim>\<open>re.search(IP_REGEX, s)\<close>, giving the matched text), the workers' replies (what
  \<^verbatim>\<open>_get_miner_prediction\<close> returns for the job description and a worker), the order
  in which a Python \<^verbatim>\<open>set\<close> built from a list iterates (the language does not
  define it), the random source of \<^verbatim>\<open>random.choice\<close> (the \<open>i\<close>-th draw from a list of
  length \<open>n\<close> is the element at index \<open>rnd i mod n\<close>) and
  \<^verbatim>\<open>settings.max_allowed_weights\<close>.
\<close>

record env =
  modules_adresses :: "(int \<times> string) list"
  modules_keys :: "(int \<times> string) list"
  val_ss58 :: string
  ip_regex_search :: "string \<Rightarrow> string option"
  miner_reply :: "miner_prompt option \<Rightarrow> string list \<times> string \<Rightarrow> miner_answer option"
  set_iter :: "string list \<Rightarrow> string list"
  rnd :: "nat \<Rightarrow> nat"
  max_allowed_weights :: int

text \<open>\<^verbatim>\<open>s.split(":")\<close>.\<close>

fun split_colon :: "string \<Rightarrow> string \<Rightarrow> string list" where
  "split_colon acc [] = [rev acc]"
| "split_colon acc (c # cs) =
     (if c = CHR '':'' then rev acc # split_colon [] cs else split_colon (c # acc) cs)"

definition get_ip_port :: "(string \<Rightarrow> string option) \<Rightarrow> (int \<times> string) list \<Rightarrow> (int \<times> string list) list" where
  "get_ip_port search adresses =
     concat (map (\<lambda>(id, addr). case search addr of
                                   None \<Rightarrow> []
                                 | Some x \<Rightarrow> [(id, split_colon [] x)]) adresses)"

text \<open>
  The loop of \<^verbatim>\<open>validate_step\<close> that fills \<^verbatim>\<open>modules_info\<close>: a module with no
  address (or an empty one) is skipped.
\<close>

fun build_modules_info ::
  "(int \<times> string list) list \<Rightarrow> (int \<times> string) list \<Rightarrow> (int \<times> string list \<times> string) list \<Rightarrow>
   (int \<times> string list \<times> string) list" where
  "build_modules_info addrs [] info = info"
| "build_modules_info addrs ((module_id, key) # keys) info =
     (case map_of addrs module_id of
        None \<Rightarrow> build_modules_info addrs keys info
      | Some module_addr \<Rightarrow>
          if module_addr = [] then build_modules_info addrs keys info
          else build_modules_info addrs keys (dict_set info module_id (module_addr, key)))"

subsection \<open>Scoring and the vote\<close>

text \<open>The float literal \<^verbatim>\<open>0.9\<close>.\<close>

definition float_0_9 :: pyfloat where
  "float_0_9 = round_double (9 / 10)"

text \<open>
  \<^verbatim>\<open>not miner_answer\<close>: \<^verbatim>\<open>None\<close> and the empty object are falsy.
\<close>

definition falsy :: "miner_answer option \<Rightarrow> bool" where
  "falsy a =
     (case a of
        None \<Rightarrow> True
      | Some ans \<Rightarrow> overall_hash ans = None \<and> data ans = None \<and> other_keys ans = [])"

definition score_miner :: "miner_prompt option \<Rightarrow> miner_answer option \<Rightarrow> pyfloat" where
  "score_miner miner_prompt miner_answer = (if falsy miner_answer then 0 else float_0_9)"

text \<open>
  \<^verbatim>\<open>sorted(score_dict.items(), key=lambda x: x[1], reverse=True)\<close> is stable: items with
  equal scores keep their order. Sorting by the negated score, ascending and stable,
  is the same order.
\<close>

definition cut_to_max_allowed_weights :: "(int \<times> pyfloat) list \<Rightarrow> int \<Rightarrow> (int \<times> pyfloat) list" where
  "cut_to_max_allowed_weights score_dict maw =
     (let sorted_scores = sort_key (\<lambda>x. - snd x) score_dict;
          cut_scores = py_slice_to sorted_scores maw
      in py_dict cut_scores)"

fun weigh :: "pyfloat \<Rightarrow> (int \<times> pyfloat) list \<Rightarrow> (int \<times> int) list \<Rightarrow> py_error + (int \<times> int) list" where
  "weigh scores [] weighted_scores = Inr weighted_scores"
| "weigh scores ((uid, score) # items) weighted_scores =
     (case fdiv (fmul score 1000) scores of
        Inl e \<Rightarrow> Inl e
      | Inr q \<Rightarrow> weigh scores items (dict_set weighted_scores uid (py_int q)))"

text \<open>
  \<open>set_weights\<close> returns the \<open>uids\<close> and \<open>weights\<close> it passes to \<^verbatim>\<open>client.vote\<close>.
\<close>

definition set_weights :: "int \<Rightarrow> (int \<times> pyfloat) list \<Rightarrow> py_error + int list \<times> int list" where
  "set_weights maw score_dict0 =
     (let score_dict = cut_to_max_allowed_weights score_dict0 maw;
          scores = py_sum (map snd score_dict)
      in case weigh scores score_dict [] of
           Inl e \<Rightarrow> Inl e
         | Inr weighted_scores0 \<Rightarrow>
             (let weighted_scores = filter (\<lambda>(k, v). v \<noteq> 0) weighted_scores0
              in Inr (map fst weighted_scores, map snd weighted_scores)))"

subsection \<open>Consensus\<close>

text \<open>\<^verbatim>\<open>miner_answer['overall_hash']\<close>.\<close>

definition get_overall_hash :: "miner_answer option \<Rightarrow> py_error + string" where
  "get_overall_hash a =
     (case a of
        None \<Rightarrow> Inl TypeError
      | Some ans \<Rightarrow> (case overall_hash ans of None \<Rightarrow> Inl KeyError | Some h \<Rightarrow> Inr h))"

fun overall_hashes_of :: "miner_answer option list \<Rightarrow> py_error + string list" where
  "overall_hashes_of [] = Inr []"
| "overall_hashes_of (a # as) =
     (case get_overall_hash a of
        Inl e \<Rightarrow> Inl e
      | Inr h \<Rightarrow> (case overall_hashes_of as of Inl e \<Rightarrow> Inl e | Inr hs \<Rightarrow> Inr (h # hs)))"

text \<open>\<^verbatim>\<open>max(set(overall_hashes), key=overall_hashes.count)\<close>.\<close>

definition most_common_hash :: "(string list \<Rightarrow> string list) \<Rightarrow> string list \<Rightarrow> py_error + string" where
  "most_common_hash iter overall_hashes = py_max (iter overall_hashes) (count_list overall_hashes)"

fun agreeing ::
  "string \<Rightarrow> (int \<times> miner_answer option) list \<Rightarrow> py_error + (int \<times> miner_answer option) list" where
  "agreeing h [] = Inr []"
| "agreeing h ((key, a) # rest) =
     (case get_overall_hash a of
        Inl e \<Rightarrow> Inl e
      | Inr h' \<Rightarrow>
          (case agreeing h rest of
             Inl e \<Rightarrow> Inl e
           | Inr kept \<Rightarrow> Inr (if h' = h then (key, a) # kept else kept)))"

subsection \<open>Verification\<close>

text \<open>
  \<^verbatim>\<open>check_miner_answer\<close> calls the ground-truth oracle through the global name
  \<^verbatim>\<open>rust_backend\<close>. A global name is bound to a module or it is not; looking up a name
  that is not bound raises \<^verbatim>\<open>NameError\<close>. \<^verbatim>\<open>validator.py\<close> imports
  \<^verbatim>\<open>pool_data_fetcher\<close> and never imports or assigns \<^verbatim>\<open>rust_backend\<close>: the name is
  not bound.
\<close>

record backend_module =
  fetch_block_range ::
    "string option \<Rightarrow> string option \<Rightarrow> string option \<Rightarrow> string option \<Rightarrow> int \<times> int"
  fetch_block_data_by_block_number :: "int \<Rightarrow> string"

definition rust_backend :: "backend_module option" where
  "rust_backend = None"

text \<open>\<^verbatim>\<open>random.choice(seq)\<close>, for the \<open>i\<close>-th draw of the round.\<close>

definition py_choice :: "(nat \<Rightarrow> nat) \<Rightarrow> nat \<Rightarrow> 'a list \<Rightarrow> py_error + 'a" where
  "py_choice r i seq = (if seq = [] then Inl IndexError else Inr (seq ! (r i mod length seq)))"

definition ANSWER_CHECK_COUNT :: nat where
  "ANSWER_CHECK_COUNT = 10"

text \<open>
  The body of the \<^verbatim>\<open>for\<close> loop of \<^verbatim>\<open>check_miner_answer\<close>, over the draws left. The
  hash of the oracle is fetched, through \<^verbatim>\<open>rust_backend\<close>, before the hash of the
  sampled record is read.
\<close>

fun check_draws ::
  "(nat \<Rightarrow> nat) \<Rightarrow> int \<Rightarrow> int \<Rightarrow> block_data list \<Rightarrow> nat list \<Rightarrow> py_error + bool" where
  "check_draws r block_number_start block_number_end miner_data [] = Inr True"
| "check_draws r block_number_start block_number_end miner_data (i # draws) =
     (case py_choice r i miner_data of
        Inl e \<Rightarrow> Inl e
      | Inr bd \<Rightarrow>
          (case block_number bd of
             None \<Rightarrow> Inr False
           | Some bn \<Rightarrow>
               if bn < block_number_start \<or> bn > block_number_end then Inr False
               else (case rust_backend of
                       None \<Rightarrow> Inl NameError
                     | Some backend \<Rightarrow>
                         (case hash bd of
                            None \<Rightarrow> Inl KeyError
                          | Some h \<Rightarrow>
                              if fetch_block_data_by_block_number backend bn \<noteq> h then Inr False
                              else check_draws r block_number_start block_number_end
                                     miner_data draws))))"

text \<open>
  \<^verbatim>\<open>check_miner_answer\<close>: the four \<^verbatim>\<open>miner_prompt.get\<close> calls raise
  \<^verbatim>\<open>AttributeError\<close> on \<^verbatim>\<open>None\<close>; the next statement looks \<^verbatim>\<open>rust_backend\<close> up.
\<close>

definition check_miner_answer ::
  "env \<Rightarrow> miner_prompt option \<Rightarrow> miner_answer option \<Rightarrow> py_error + bool" where
  "check_miner_answer ev prompt answer =
     (case prompt of
        None \<Rightarrow> Inl AttributeError
      | Some p \<Rightarrow>
          (case rust_backend of
             None \<Rightarrow> Inl NameError
           | Some backend \<Rightarrow>
               (case fetch_block_range backend (token_a p) (token_b p)
                       (start_datetime p) (end_datetime p) of
                  (block_number_start, block_number_end) \<Rightarrow>
                    (case answer of
                       None \<Rightarrow> Inl AttributeError
                     | Some ans \<Rightarrow>
                         (case data ans of
                            None \<Rightarrow> Inl TypeError
                          | Some miner_data \<Rightarrow>
                              check_draws (rnd ev) block_number_start block_number_end
                                miner_data [0..<ANSWER_CHECK_COUNT])))))"

subsection \<open>One round and the loop\<close>

text \<open>
  \<^verbatim>\<open>get_miner_prompt\<close> calls \<^verbatim>\<open>get_time_range\<close> and ends with no \<^verbatim>\<open>return\<close>
  statement: its value is \<^verbatim>\<open>None\<close>.
\<close>

definition get_miner_prompt :: "db \<Rightarrow> (py_error + miner_prompt option) \<times> db" where
  "get_miner_prompt d =
     (case get_time_range d of
        (Inl e, d') \<Rightarrow> (Inl e, d')
      | (Inr time_range, d') \<Rightarrow> (Inr None, d'))"

text \<open>The scoring loop of \<^verbatim>\<open>validate_step\<close>.\<close>

fun score_loop ::
  "miner_prompt option \<Rightarrow> (int \<times> miner_answer option) list \<Rightarrow> (int \<times> pyfloat) list \<Rightarrow>
   py_error + (int \<times> pyfloat) list" where
  "score_loop prompt [] score_dict = Inr score_dict"
| "score_loop prompt ((uid, miner_response) # rest) score_dict =
     (if falsy miner_response then score_loop prompt rest score_dict
      else (let score = score_miner prompt miner_response
            in if \<not> score \<le> 1 then Inl AssertionError
               else score_loop prompt rest (dict_set score_dict uid score)))"

text \<open>
  \<open>validate_step_body\<close> is \<^verbatim>\<open>validate_step\<close> from the polling of the workers on,
  for the \<^verbatim>\<open>modules_info\<close> and the \<^verbatim>\<open>miner_prompt\<close> computed before. It returns
  \<open>Some (uids, weights)\<close> when \<^verbatim>\<open>client.vote\<close> was called with these lists, and
  \<open>None\<close> when the round returned with no vote.
\<close>

definition validate_step_body ::
  "env \<Rightarrow> (int \<times> string list \<times> string) list \<Rightarrow> miner_prompt option \<Rightarrow>
   py_error + (int list \<times> int list) option" where
  "validate_step_body ev modules_info prompt =
     (let miner_answers = map (miner_reply ev prompt) (map snd modules_info);
          miner_results = zip (map fst modules_info) miner_answers
      in case overall_hashes_of miner_answers of
           Inl e \<Rightarrow> Inl e
         | Inr overall_hashes \<Rightarrow>
             (case most_common_hash (set_iter ev) overall_hashes of
                Inl e \<Rightarrow> Inl e
              | Inr mch \<Rightarrow>
                  (case agreeing mch miner_results of
                     Inl e \<Rightarrow> Inl e
                   | Inr [] \<Rightarrow> Inl IndexError
                   | Inr ((uid0, answer0) # others) \<Rightarrow>
                       (case check_miner_answer ev prompt answer0 of
                          Inl e \<Rightarrow> Inl e
                        | Inr False \<Rightarrow> Inr None
                        | Inr True \<Rightarrow>
                            (case score_loop prompt ((uid0, answer0) # others) [] of
                               Inl e \<Rightarrow> Inl e
                             | Inr score_dict \<Rightarrow>
                                 if score_dict = [] then Inr None
                                 else (case set_weights (max_allowed_weights ev) score_dict of
                                         Inl e \<Rightarrow> Inl e
                                       | Inr vote \<Rightarrow> Inr (Some vote)))))))"

text \<open>
  \<^verbatim>\<open>validate_step\<close>. The method calls \<^verbatim>\<open>self.get_miner_prompt()\<close>, which the class
  leaves to be filled in (``Implement your custom prompt generation logic here'');
  \<open>validate_step_with\<close> is the method for any such prompt generator, and
  \<open>validate_step\<close> is the method with the generator of the source.
\<close>

definition validate_step_with ::
  "(db \<Rightarrow> (py_error + miner_prompt option) \<times> db) \<Rightarrow> env \<Rightarrow> db \<Rightarrow>
   (py_error + (int list \<times> int list) option) \<times> db" where
  "validate_step_with prompt_generator ev d =
     (if val_ss58 ev \<notin> snd ` set (modules_keys ev) then (Inl RuntimeError, d)
      else (let modules_filtered_address = get_ip_port (ip_regex_search ev) (modules_adresses ev);
                modules_info = build_modules_info modules_filtered_address (modules_keys ev) []
            in case prompt_generator d of
                 (Inl e, d') \<Rightarrow> (Inl e, d')
               | (Inr prompt, d') \<Rightarrow> (validate_step_body ev modules_info prompt, d')))"

definition validate_step :: "env \<Rightarrow> db \<Rightarrow> (py_error + (int list \<times> int list) option) \<times> db" where
  "validate_step ev d = validate_step_with get_miner_prompt ev d"



section \<open>Notions of the specification and example inputs\<close>

text \<open>
  A ledger is a contiguous chain when every window is non-empty and every window but the
  first starts where the one stored before it ends; windows do not overlap when each
  ends before every window stored after it starts. \<open>oldest_incomplete\<close> is the
  incomplete window with the least start. \<open>run_calls\<close> runs a sequence of
  \<^verbatim>\<open>get_time_range\<close> and \<^verbatim>\<open>mark_time_range_as_complete\<close> calls on a ledger.
\<close>

fun contiguous :: "timetable_row list \<Rightarrow> bool" where
  "contiguous [] = True"
| "contiguous [row] = (start_date row < end_date row)"
| "contiguous (row # next_row # rows) =
     (start_date row < end_date row \<and> start_date next_row = end_date row \<and> contiguous (next_row # rows))"

fun non_overlapping :: "timetable_row list \<Rightarrow> bool" where
  "non_overlapping [] = True"
| "non_overlapping (row # rows) =
     ((\<forall>later \<in> set rows. end_date row \<le> start_date later) \<and> non_overlapping rows)"

definition oldest_incomplete :: "db \<Rightarrow> timetable_row option" where
  "oldest_incomplete d =
     (case fetch_incompleted_time_range d of
        [] \<Rightarrow> None
      | row # rows \<Rightarrow>
          Some (foldl (\<lambda>best r. if start_date r < start_date best then r else best) row rows))"

datatype ledger_call = Next_time_window | Mark_window_complete date date

fun run_calls :: "ledger_call list \<Rightarrow> db \<Rightarrow> db" where
  "run_calls [] d = d"
| "run_calls (Next_time_window # calls) d = run_calls calls (snd (get_time_range d))"
| "run_calls (Mark_window_complete start end # calls) d =
     run_calls calls (snd (mark_time_range_as_complete start end d))"

definition window_of :: "timetable_row \<Rightarrow> date \<times> date" where
  "window_of row = (start_date row, end_date row)"

definition before :: "timetable_row \<Rightarrow> timetable_row \<Rightarrow> bool" where
  "before a b \<longleftrightarrow> start_date a < start_date b \<and> end_date a \<le> start_date b"

text \<open>Example ledgers.\<close>

definition uncommitted_db :: db where
  "uncommitted_db =
     \<lparr>timetable = [\<lparr>start_date = 1, end_date = 2, completed = False\<rparr>],
      token_pairs = [(1, 2) \<mapsto> [\<lparr>pair_token_a = ''T0'', pair_token_b = ''T1'', pair_fee = 3000,
                                  pair_completed = False\<rparr>]],
      archive = Map.empty, autocommit = False\<rparr>"

text \<open>
  Example rounds: the workers \<open>0, 1, \<dots>\<close>, given by their keys and their answers, all
  reachable, and the validator registered after them with no address.
\<close>

fun number_from :: "int \<Rightarrow> 'a list \<Rightarrow> (int \<times> 'a) list" where
  "number_from i [] = []"
| "number_from i (x # xs) = (i, x) # number_from (i + 1) xs"

definition example_env :: "(string \<times> miner_answer option) list \<Rightarrow> env" where
  "example_env workers =
     \<lparr>modules_adresses = number_from 0 (map (\<lambda>w. ''10.0.0.1:8000'') workers),
      modules_keys = number_from 0 (map fst workers @ [''validator'']),
      val_ss58 = ''validator'',
      ip_regex_search = Some,
      miner_reply = (\<lambda>prompt (connection, miner_key).
                       case map_of workers miner_key of None \<Rightarrow> None | Some answer \<Rightarrow> answer),
      set_iter = remdups,
      rnd = (\<lambda>i. i),
      max_allowed_weights = 420\<rparr>"

definition bare_db :: db where
  "bare_db = \<lparr>timetable = [], token_pairs = Map.empty, archive = Map.empty, autocommit = True\<rparr>"

definition unordered_db :: db where
  "unordered_db =
     \<lparr>timetable = [\<lparr>start_date = 3, end_date = 4, completed = False\<rparr>,
                   \<lparr>start_date = 1, end_date = 2, completed = False\<rparr>],
      token_pairs = Map.empty, archive = Map.empty, autocommit = True\<rparr>"

definition chain_db :: db where
  "chain_db =
     \<lparr>timetable = [\<lparr>start_date = 738000, end_date = 738001, completed = True\<rparr>,
                   \<lparr>start_date = 738001, end_date = 738002, completed = False\<rparr>,
                   \<lparr>start_date = 738002, end_date = 738003, completed = False\<rparr>],
      token_pairs = Map.empty, archive = Map.empty, autocommit = True\<rparr>"

text \<open>
  The rule of the specification for the accepted fingerprint: the most frequent one, and
  among the most frequent ones the one seen first in the list of responses.
\<close>

definition first_seen_most_frequent :: "string list \<Rightarrow> py_error + string" where
  "first_seen_most_frequent overall_hashes = py_max overall_hashes (count_list overall_hashes)"


definition example_prompt :: miner_prompt where
  "example_prompt =
     \<lparr>token_a = Some ''T0'', token_b = Some ''T1'',
      start_datetime = Some ''2024-01-01 00:00:00'', end_datetime = Some ''2024-01-02 00:00:00''\<rparr>"

definition good_answer :: miner_answer where
  "good_answer =
     \<lparr>overall_hash = Some ''A'',
      data = Some [\<lparr>block_number = Some 150, hash = Some ''h''\<rparr>,
                   \<lparr>block_number = Some 160, hash = Some ''h''\<rparr>],
      other_keys = []\<rparr>"

text \<open>
  An answer whose only record has no block number: whichever record is drawn, the spot
  check of the specification rejects it.
\<close>

definition bad_answer :: miner_answer where
  "bad_answer =
     \<lparr>overall_hash = Some ''B'',
      data = Some [\<lparr>block_number = None, hash = Some ''h''\<rparr>],
      other_keys = []\<rparr>"

text \<open>
  The end-to-end scenario of the specification: the window from 2024-01-01 to 2024-01-02,
  one token pair, and four workers that return the same valid answer.
\<close>

definition end_to_end_db :: db where
  "end_to_end_db =
     \<lparr>timetable = [\<lparr>start_date = 738886, end_date = 738887, completed = False\<rparr>],
      token_pairs = [(738886, 738887) \<mapsto>
                       [\<lparr>pair_token_a = ''T0'', pair_token_b = ''T1'', pair_fee = 3000,
                         pair_completed = False\<rparr>]],
      archive = Map.empty, autocommit = True\<rparr>"

definition agreeing_env :: env where
  "agreeing_env =
     example_env [(''m0'', Some good_answer), (''m1'', Some good_answer),
                  (''m2'', Some good_answer), (''m3'', Some good_answer)]"

text \<open>Eight workers, three of which do not answer.\<close>

definition null_isolation_env :: env where
  "null_isolation_env =
     example_env [(''m0'', Some good_answer), (''m1'', None), (''m2'', Some good_answer),
                  (''m3'', Some good_answer), (''m4'', None), (''m5'', Some good_answer),
                  (''m6'', None), (''m7'', Some good_answer)]"


section \<open>The task ledger: windows and completion\<close>

lemma contiguous_Cons:
  "contiguous (row # rows) \<Longrightarrow> contiguous rows"
  by (cases rows) auto

lemma contiguous_positive:
  "contiguous rows \<Longrightarrow> row \<in> set rows \<Longrightarrow> start_date row < end_date row"
  by (induction rows rule: contiguous.induct) auto

lemma contiguous_sorted:
  "contiguous rows \<Longrightarrow> sorted_wrt before rows"
proof (induction rows rule: contiguous.induct)
  case 1
  show ?case by simp
next
  case (2 row)
  show ?case by simp
next
  case (3 row next_row rows)
  then have sw: "sorted_wrt before (next_row # rows)" and c: "contiguous (next_row # rows)"
    and s: "start_date row < end_date row" and e: "start_date next_row = end_date row"
    by simp_all
  have "before row x" if "x \<in> set (next_row # rows)" for x
  proof (cases "x = next_row")
    case True
    with s e show ?thesis by (simp add: before_def)
  next
    case False
    with that have "x \<in> set rows" by simp
    with sw have "before next_row x" by simp
    with s e show ?thesis by (simp add: before_def)
  qed
  with sw show ?case by simp
qed

lemma foldl_latest:
  "sorted_wrt before (row # rows) \<Longrightarrow>
   foldl (\<lambda>best r. if start_date best < start_date r then r else best) row rows = last (row # rows)"
proof (induction rows arbitrary: row)
  case Nil
  show ?case by simp
next
  case (Cons r rows)
  from Cons.prems have "start_date row < start_date r" by (simp add: before_def)
  moreover from Cons.prems have "sorted_wrt before (r # rows)" by simp
  ultimately show ?case using Cons.IH[of r] by simp
qed

lemma foldl_oldest:
  "\<forall>x \<in> set rows. start_date row < start_date x \<Longrightarrow>
   foldl (\<lambda>best r. if start_date r < start_date best then r else best) row rows = row"
  by (induction rows) auto

lemma fetch_last_contiguous:
  assumes "contiguous (timetable d)" "timetable d \<noteq> []"
  shows "fetch_last_time_range d = Some (last (timetable d))"
proof -
  from assms obtain row rows where t: "timetable d = row # rows" by (cases "timetable d") auto
  with assms have "sorted_wrt before (row # rows)" using contiguous_sorted by metis
  then show ?thesis unfolding fetch_last_time_range_def t by (simp only: list.case foldl_latest)
qed

lemma oldest_incomplete_first:
  assumes "contiguous (timetable d)" "fetch_incompleted_time_range d = row # rows"
  shows "oldest_incomplete d = Some row"
proof -
  have "sorted_wrt before (filter (\<lambda>r. \<not> completed r) (timetable d))"
    using assms(1) contiguous_sorted sorted_wrt_filter by blast
  with assms(2) have "sorted_wrt before (row # rows)" by (simp add: fetch_incompleted_time_range_def)
  then have "\<forall>x \<in> set rows. start_date row < start_date x" by (simp add: before_def)
  then show ?thesis unfolding oldest_incomplete_def assms(2) by (simp only: list.case foldl_oldest)
qed

lemma contiguous_snoc:
  "contiguous rows \<Longrightarrow> rows \<noteq> [] \<Longrightarrow> start_date new = end_date (last rows) \<Longrightarrow>
   start_date new < end_date new \<Longrightarrow> contiguous (rows @ [new])"
  by (induction rows rule: contiguous.induct) auto

lemma window_of_complete_first:
  "map window_of (complete_first s e rows) = map window_of rows"
  by (induction rows) (auto simp: window_of_def)

lemma contiguous_windows:
  "map window_of rows = map window_of rows' \<Longrightarrow> contiguous rows \<Longrightarrow> contiguous rows'"
proof (induction rows arbitrary: rows' rule: contiguous.induct)
  case 1
  then show ?case by simp
next
  case (2 row)
  then show ?case by (auto simp: window_of_def)
next
  case (3 row next_row rows)
  from "3.prems"(1) obtain a b cs where r: "rows' = a # b # cs"
    by (cases rows'; cases "tl rows'") auto
  with "3.prems" have "map window_of (next_row # rows) = map window_of (b # cs)" by simp
  with "3.IH" "3.prems"(2) have "contiguous (b # cs)" by simp
  with "3.prems" r show ?case by (auto simp: window_of_def)
qed

lemma sorted_non_overlapping:
  "sorted_wrt before rows \<Longrightarrow> non_overlapping rows"
  by (induction rows) (auto simp: before_def)

lemma start_not_taken:
  assumes "contiguous rows" "rows \<noteq> []"
  shows "end_date (last rows) \<notin> start_date ` set rows"
proof
  assume "end_date (last rows) \<in> start_date ` set rows"
  then obtain x where x: "x \<in> set rows" "start_date x = end_date (last rows)" by auto
  have l: "start_date (last rows) < end_date (last rows)"
    using assms contiguous_positive last_in_set by blast
  show False
  proof (cases "x = last rows")
    case True
    with x l show False by simp
  next
    case False
    from assms(2) obtain ys where ys: "rows = ys @ [last rows]"
      by (metis append_butlast_last_id)
    with x False have "x \<in> set ys" by (metis Un_iff empty_iff empty_set set_ConsD set_append)
    moreover have "sorted_wrt before (ys @ [last rows])" using assms(1) contiguous_sorted ys by metis
    ultimately have "before x (last rows)" by (simp add: sorted_wrt_append)
    with x l show False by (simp add: before_def)
  qed
qed

lemma get_time_range_existing:
  assumes "fetch_incompleted_time_range d = row # rows"
  shows "get_time_range d = (Inr (start_date row, end_date row), d)"
  using assms by (simp add: get_time_range_def)

lemma get_time_range_new:
  assumes "contiguous (timetable d)" "timetable d \<noteq> []" "fetch_incompleted_time_range d = []"
    and "1 \<le> end_date (last (timetable d)) + 1" "end_date (last (timetable d)) + 1 \<le> date_max_ordinal"
  shows "get_time_range d =
           (Inr (end_date (last (timetable d)), end_date (last (timetable d)) + 1),
            d\<lparr>timetable := timetable d @
               [\<lparr>start_date = end_date (last (timetable d)),
                 end_date = end_date (last (timetable d)) + 1, completed = False\<rparr>]\<rparr>)"
proof -
  have "fetch_last_time_range d = Some (last (timetable d))"
    using assms(1,2) by (rule fetch_last_contiguous)
  moreover have "end_date (last (timetable d)) \<notin> start_date ` set (timetable d)"
    using assms(1,2) by (rule start_not_taken)
  ultimately show ?thesis
    using assms(3,4,5) by (simp add: get_time_range_def date_add_days_def add_timetable_entry_def Let_def)
qed

lemma get_time_range_timetable:
  "timetable (snd (get_time_range d)) = timetable d \<or>
   (\<exists>row. fetch_last_time_range d = Some row \<and> fetch_incompleted_time_range d = [] \<and>
      timetable (snd (get_time_range d)) =
        timetable d @ [\<lparr>start_date = end_date row, end_date = end_date row + 1, completed = False\<rparr>])"
  by (auto simp: get_time_range_def date_add_days_def add_timetable_entry_def Let_def
      split: list.splits option.splits)

lemma get_time_range_contiguous:
  assumes "contiguous (timetable d)"
  shows "contiguous (timetable (snd (get_time_range d)))"
proof -
  consider "timetable (snd (get_time_range d)) = timetable d"
    | row where "fetch_last_time_range d = Some row"
        "timetable (snd (get_time_range d)) =
          timetable d @ [\<lparr>start_date = end_date row, end_date = end_date row + 1, completed = False\<rparr>]"
    using get_time_range_timetable[of d] by blast
  then show ?thesis
  proof cases
    case 1
    with assms show ?thesis by simp
  next
    case 2
    from 2(1) have ne: "timetable d \<noteq> []" by (auto simp: fetch_last_time_range_def)
    with assms 2(1) have "row = last (timetable d)" by (simp add: fetch_last_contiguous)
    with assms ne 2(2) show ?thesis by (simp add: contiguous_snoc)
  qed
qed

lemma get_time_range_windows:
  "\<exists>ext. map window_of (timetable (snd (get_time_range d))) = map window_of (timetable d) @ ext"
  using get_time_range_timetable[of d] by auto

lemma mark_time_range_windows:
  "map window_of (timetable (snd (mark_time_range_as_complete s e d))) = map window_of (timetable d)"
  by (simp add: mark_time_range_as_complete_def window_of_complete_first split: option.splits)

lemma run_calls_contiguous:
  "contiguous (timetable d) \<Longrightarrow> contiguous (timetable (run_calls calls d))"
proof (induction calls d rule: run_calls.induct)
  case (1 d)
  then show ?case by simp
next
  case (2 calls d)
  then show ?case by (simp add: get_time_range_contiguous)
next
  case (3 s e calls d)
  have "contiguous (timetable (snd (mark_time_range_as_complete s e d)))"
    using mark_time_range_windows "3.prems" contiguous_windows by metis
  with "3.IH" show ?case by simp
qed

lemma run_calls_windows:
  "\<exists>ext. map window_of (timetable (run_calls calls d)) = map window_of (timetable d) @ ext"
proof (induction calls d rule: run_calls.induct)
  case (1 d)
  then show ?case by simp
next
  case (2 calls d)
  from 2 obtain ext where
    "map window_of (timetable (run_calls calls (snd (get_time_range d)))) =
       map window_of (timetable (snd (get_time_range d))) @ ext" by blast
  moreover obtain ext' where
    "map window_of (timetable (snd (get_time_range d))) = map window_of (timetable d) @ ext'"
    using get_time_range_windows by blast
  ultimately show ?case by simp
next
  case (3 s e calls d)
  then show ?case by (simp add: mark_time_range_windows)
qed



text \<open>
  Completion of a window: \<^verbatim>\<open>False\<close> and no change when no record matches; otherwise
  \<^verbatim>\<open>True\<close>, the flag of the record is stored, and a second call returns \<^verbatim>\<open>True\<close> and
  changes nothing. Completion of a token pair returns the same value and leaves the
  same state when it is called a second time; it stores the flags of the matching
  records when the engine autocommits.
\<close>

lemma find_complete_first:
  "find (\<lambda>row. start_date row = s \<and> end_date row = e) (complete_first s e rows) =
   map_option (\<lambda>row. row\<lparr>completed := True\<rparr>) (find (\<lambda>row. start_date row = s \<and> end_date row = e) rows)"
  by (induction rows) auto

lemma complete_first_idem:
  "complete_first s e (complete_first s e rows) = complete_first s e rows"
  by (induction rows) auto

lemma mark_time_range_false:
  "find (\<lambda>row. start_date row = s \<and> end_date row = e) (timetable d) = None \<Longrightarrow>
   mark_time_range_as_complete s e d = (False, d)"
  by (simp add: mark_time_range_as_complete_def)

lemma mark_time_range_twice:
  "fst (mark_time_range_as_complete s e d) \<Longrightarrow>
   mark_time_range_as_complete s e (snd (mark_time_range_as_complete s e d)) =
     (True, snd (mark_time_range_as_complete s e d))"
  by (auto simp: mark_time_range_as_complete_def find_complete_first complete_first_idem split: option.splits)

lemma mark_time_range_persists:
  "find (\<lambda>row. start_date row = s \<and> end_date row = e) (timetable d) = Some row \<Longrightarrow>
   fst (mark_time_range_as_complete s e d) \<and>
   find (\<lambda>row. start_date row = s \<and> end_date row = e) (timetable (snd (mark_time_range_as_complete s e d)))
     = Some (row\<lparr>completed := True\<rparr>)"
  by (simp add: mark_time_range_as_complete_def find_complete_first)

lemma find_complete_pairs:
  "find (pair_matches a b f) (complete_pairs a b f rows) =
   map_option (\<lambda>row. row\<lparr>pair_completed := True\<rparr>) (find (pair_matches a b f) rows)"
  by (induction rows) (auto simp: pair_matches_def complete_pairs_def)

lemma complete_pairs_idem:
  "complete_pairs a b f (complete_pairs a b f rows) = complete_pairs a b f rows"
  by (induction rows) (auto simp: pair_matches_def complete_pairs_def)

lemma ensure_token_pairs_table_idem:
  "ensure_token_pairs_table s e (ensure_token_pairs_table s e d) = ensure_token_pairs_table s e d"
  by (simp add: ensure_token_pairs_table_def split: option.splits)

lemma mark_token_pair_twice:
  "mark_token_pair_as_complete s e a b f (snd (mark_token_pair_as_complete s e a b f d)) =
   mark_token_pair_as_complete s e a b f d"
  by (auto simp: mark_token_pair_as_complete_def ensure_token_pairs_table_def Let_def
      find_complete_pairs complete_pairs_idem split: option.splits)

lemma mark_token_pair_false:
  "token_pairs d (s, e) = Some rows \<Longrightarrow> find (pair_matches a b f) rows = None \<Longrightarrow>
   mark_token_pair_as_complete s e a b f d = (False, d)"
  by (simp add: mark_token_pair_as_complete_def ensure_token_pairs_table_def)

lemma mark_token_pair_true:
  "token_pairs d (s, e) = Some rows \<Longrightarrow> find (pair_matches a b f) rows = Some row \<Longrightarrow>
   mark_token_pair_as_complete s e a b f d =
     (True, if autocommit d
            then d\<lparr>token_pairs := (token_pairs d)((s, e) \<mapsto>
                   complete_pairs a b f rows)\<rparr>
            else d)"
  by (simp add: mark_token_pair_as_complete_def ensure_token_pairs_table_def)

text \<open>
  C4 does not hold for \<^verbatim>\<open>mark_token_pair_as_complete\<close> on an engine that does not
  autocommit (SQLAlchemy 2.x): the function finds the matching record, executes the
  \<^verbatim>\<open>UPDATE\<close> and returns \<^verbatim>\<open>True\<close>, but it never commits (its sibling
  \<^verbatim>\<open>mark_time_range_as_complete\<close> does), the connection is closed and the update is
  rolled back: the stored token pair is still incomplete.
\<close>

theorem mark_token_pair_not_persisted:
  "mark_token_pair_as_complete 1 2 ''T0'' ''T1'' 3000 uncommitted_db = (True, uncommitted_db) \<and>
   token_pairs uncommitted_db (1, 2) =
     Some [\<lparr>pair_token_a = ''T0'', pair_token_b = ''T1'', pair_fee = 3000, pair_completed = False\<rparr>]"
  by (simp add: mark_token_pair_as_complete_def ensure_token_pairs_table_def uncommitted_db_def
      pair_matches_def complete_pairs_def)

text \<open>
  C9: \<^verbatim>\<open>get_time_range\<close> is only well-defined when the timetable holds at least one row.
  On an empty timetable there is no incomplete range and \<^verbatim>\<open>fetch_last_time_range\<close>
  returns \<^verbatim>\<open>None\<close>; reading \<^verbatim>\<open>last_time_range["end"]\<close> then raises \<^verbatim>\<open>TypeError\<close>, no
  bootstrap window is created (the ledger is left as it was), and a round of
  \<^verbatim>\<open>validate_step\<close> started on such a ledger ends with an exception.
\<close>

theorem get_time_range_empty_timetable:
  assumes "timetable d = []"
  shows "fetch_incompleted_time_range d = [] \<and> fetch_last_time_range d = None \<and>
         get_time_range d = (Inl TypeError, d) \<and>
         validate_step ev d =
           (Inl (if val_ss58 ev \<in> snd ` set (modules_keys ev) then TypeError else RuntimeError), d)"
  using assms
  by (simp add: fetch_incompleted_time_range_def fetch_last_time_range_def get_time_range_def
      validate_step_def validate_step_with_def get_miner_prompt_def)

theorem get_time_range_empty_timetable_witness:
  "timetable bare_db = [] \<and> get_time_range bare_db = (Inl TypeError, bare_db) \<and>
   validate_step (example_env [(''m0'', None)]) bare_db = (Inl TypeError, bare_db)"
proof -
  have h: "timetable bare_db = []" by (simp add: bare_db_def)
  show ?thesis
    using h get_time_range_empty_timetable[OF h, of "example_env [(''m0'', None)]"]
    by (simp add: example_env_def)
qed

text \<open>
  C3 as stated does not hold on every ledger: the query of
  \<^verbatim>\<open>fetch_incompleted_time_range\<close> has no \<^verbatim>\<open>ORDER BY\<close>, and \<^verbatim>\<open>get_time_range\<close> takes its
  first row. With two incomplete windows stored out of order, the window returned is
  not the oldest one.
\<close>

theorem get_time_range_not_oldest:
  "oldest_incomplete unordered_db = Some \<lparr>start_date = 1, end_date = 2, completed = False\<rparr> \<and>
   get_time_range unordered_db = (Inr (3, 4), unordered_db)"
  by (simp add: oldest_incomplete_def get_time_range_def fetch_incompleted_time_range_def
      unordered_db_def)

text \<open>
  C3, as amended: on a ledger whose rows are stored as a contiguous chain (each window
  starts where the one before it ends and is not empty), \<^verbatim>\<open>get_time_range\<close> returns the
  start and end of the oldest incomplete window when one exists, and leaves the ledger
  as it is; when none exists and the timetable is not empty it stores exactly one new
  window, which starts at the end of the latest window and ends one day later (unless
  that day is past \<^verbatim>\<open>date.max\<close>); and after any sequence of \<^verbatim>\<open>get_time_range\<close> and
  \<^verbatim>\<open>mark_time_range_as_complete\<close> calls the ledger is still such a chain, its windows
  do not overlap, and the windows it had are followed by the created ones.
\<close>

theorem get_time_range_on_chain:
  assumes "contiguous (timetable d)"
  shows "(\<forall>row rows. fetch_incompleted_time_range d = row # rows \<longrightarrow>
            oldest_incomplete d = Some row \<and>
            get_time_range d = (Inr (start_date row, end_date row), d)) \<and>
         (timetable d \<noteq> [] \<and> fetch_incompleted_time_range d = [] \<and>
          1 \<le> end_date (last (timetable d)) + 1 \<and>
          end_date (last (timetable d)) + 1 \<le> date_max_ordinal \<longrightarrow>
            get_time_range d =
              (Inr (end_date (last (timetable d)), end_date (last (timetable d)) + 1),
               d\<lparr>timetable := timetable d @
                  [\<lparr>start_date = end_date (last (timetable d)),
                    end_date = end_date (last (timetable d)) + 1, completed = False\<rparr>]\<rparr>)) \<and>
         contiguous (timetable (run_calls calls d)) \<and>
         non_overlapping (timetable (run_calls calls d)) \<and>
         (\<exists>created. map window_of (timetable (run_calls calls d)) =
                     map window_of (timetable d) @ created)"
proof -
  have "contiguous (timetable (run_calls calls d))"
    using assms by (rule run_calls_contiguous)
  moreover from this have "non_overlapping (timetable (run_calls calls d))"
    by (simp add: contiguous_sorted sorted_non_overlapping)
  moreover have "\<exists>created. map window_of (timetable (run_calls calls d)) =
                     map window_of (timetable d) @ created"
    by (rule run_calls_windows)
  ultimately show ?thesis
    using assms oldest_incomplete_first get_time_range_existing get_time_range_new
    by (intro conjI allI impI) blast+
qed

theorem get_time_range_on_chain_witness:
  "contiguous (timetable chain_db) \<and>
   oldest_incomplete chain_db = Some \<lparr>start_date = 738001, end_date = 738002, completed = False\<rparr> \<and>
   get_time_range chain_db = (Inr (738001, 738002), chain_db) \<and>
   non_overlapping (timetable (run_calls
      [Next_time_window, Mark_window_complete 738001 738002, Mark_window_complete 738002 738003,
       Next_time_window] chain_db))"
proof -
  have h: "contiguous (timetable chain_db)" by (simp add: chain_db_def)
  have f: "fetch_incompleted_time_range chain_db =
             \<lparr>start_date = 738001, end_date = 738002, completed = False\<rparr> #
             [\<lparr>start_date = 738002, end_date = 738003, completed = False\<rparr>]"
    by (simp add: fetch_incompleted_time_range_def chain_db_def)
  note t = get_time_range_on_chain[OF h, of
        "[Next_time_window, Mark_window_complete 738001 738002,
          Mark_window_complete 738002 738003, Next_time_window]"]
  from t f have a: "oldest_incomplete chain_db =
        Some \<lparr>start_date = 738001, end_date = 738002, completed = False\<rparr> \<and>
      get_time_range chain_db = (Inr (738001, 738002), chain_db)"
    by (simp del: run_calls.simps)
  from t have b: "non_overlapping (timetable (run_calls
      [Next_time_window, Mark_window_complete 738001 738002, Mark_window_complete 738002 738003,
       Next_time_window] chain_db))"
    by blast
  from h a b show ?thesis by blast
qed

section \<open>Consensus: the accepted fingerprint\<close>

lemma max_from_mem: "max_from key best xs \<in> set (best # xs)"
  by (induction xs arbitrary: best) (auto split: if_splits)

lemma max_from_best: "key best \<le> key (max_from key best xs)"
proof (induction xs arbitrary: best)
  case Nil
  show ?case by simp
next
  case (Cons x xs)
  have "key best \<le> key (if key best < key x then x else best)" by simp
  also have "\<dots> \<le> key (max_from key (if key best < key x then x else best) xs)" by (rule Cons.IH)
  finally show ?case by simp
qed

lemma max_from_greatest: "y \<in> set (best # xs) \<Longrightarrow> key y \<le> key (max_from key best xs)"
proof (induction xs arbitrary: best)
  case Nil
  then show ?case by simp
next
  case (Cons x xs)
  let ?b = "if key best < key x then x else best"
  from Cons.prems consider "y = best" | "y = x" | "y \<in> set xs" by auto
  then show ?case
  proof cases
    case 1
    have "key best \<le> key ?b" by simp
    also have "\<dots> \<le> key (max_from key ?b xs)" by (rule max_from_best)
    finally show ?thesis using 1 by simp
  next
    case 2
    have "key x \<le> key ?b" by simp
    also have "\<dots> \<le> key (max_from key ?b xs)" by (rule max_from_best)
    finally show ?thesis using 2 by simp
  next
    case 3
    then have "y \<in> set (?b # xs)" by simp
    then have "key y \<le> key (max_from key ?b xs)" by (rule Cons.IH)
    then show ?thesis by simp
  qed
qed

lemma max_from_first:
  "\<forall>y \<in> set (takeWhile (\<lambda>x. x \<noteq> max_from key best xs) (best # xs)).
     key y < key (max_from key best xs)"
proof (induction xs arbitrary: best)
  case Nil
  show ?case by simp
next
  case (Cons x xs)
  let ?b = "if key best < key x then x else best"
  let ?m = "max_from key ?b xs"
  have m: "max_from key best (x # xs) = ?m" by simp
  have bm: "key ?b \<le> key ?m" by (rule max_from_best)
  have ih: "\<forall>y \<in> set (takeWhile (\<lambda>z. z \<noteq> ?m) (?b # xs)). key y < key ?m" by (rule Cons.IH)
  show ?case
  proof (cases "key best < key x")
    case True
    with bm have lt: "key best < key ?m" by simp
    then have "best \<noteq> ?m" by auto
    then have "takeWhile (\<lambda>z. z \<noteq> ?m) (best # x # xs) = best # takeWhile (\<lambda>z. z \<noteq> ?m) (x # xs)"
      by simp
    with ih True lt show ?thesis unfolding m by simp
  next
    case False
    then have b: "?b = best" by simp
    show ?thesis
    proof (cases "best = ?m")
      case True
      then show ?thesis unfolding m by simp
    next
      case ne: False
      with ih b have bl: "key best < key ?m" by simp
      with False have "key x < key ?m" by simp
      then have "x \<noteq> ?m" by auto
      with ne have "takeWhile (\<lambda>z. z \<noteq> ?m) (best # x # xs) = best # x # takeWhile (\<lambda>z. z \<noteq> ?m) xs"
        by simp
      moreover from ne b have "takeWhile (\<lambda>z. z \<noteq> ?m) (?b # xs) = best # takeWhile (\<lambda>z. z \<noteq> ?m) xs"
        by simp
      ultimately show ?thesis using ih bl \<open>key x < key ?m\<close> unfolding m by simp
    qed
  qed
qed

lemma py_max_first_greatest:
  assumes "xs \<noteq> []"
  shows "\<exists>m. py_max xs key = Inr m \<and> m \<in> set xs \<and> (\<forall>y \<in> set xs. key y \<le> key m) \<and>
             (\<forall>y \<in> set (takeWhile (\<lambda>x. x \<noteq> m) xs). key y < key m)"
proof -
  from assms obtain x rest where xs: "xs = x # rest" by (cases xs) auto
  have "py_max xs key = Inr (max_from key x rest)" by (simp add: py_max_def xs)
  moreover have "max_from key x rest \<in> set xs" unfolding xs by (rule max_from_mem)
  moreover have "\<forall>y \<in> set xs. key y \<le> key (max_from key x rest)"
  proof
    fix y assume "y \<in> set xs"
    then show "key y \<le> key (max_from key x rest)" unfolding xs by (rule max_from_greatest)
  qed
  moreover have "\<forall>y \<in> set (takeWhile (\<lambda>z. z \<noteq> max_from key x rest) xs). key y < key (max_from key x rest)"
    unfolding xs by (rule max_from_first)
  ultimately show ?thesis by blast
qed

lemma overall_hashes_of_length:
  "overall_hashes_of answers = Inr hs \<Longrightarrow> length hs = length answers"
  by (induction answers arbitrary: hs) (auto split: sum.splits)

lemma overall_hashes_of_None:
  "None \<in> set answers \<Longrightarrow> \<exists>e. overall_hashes_of answers = Inl e"
  by (induction answers) (auto simp: get_overall_hash_def split: sum.splits option.splits)

lemma overall_hashes_of_map:
  "\<forall>a \<in> set answers. \<exists>ans h. a = Some ans \<and> overall_hash ans = Some h \<Longrightarrow>
   overall_hashes_of answers = Inr (map (\<lambda>a. the (overall_hash (the a))) answers)"
  by (induction answers) (auto simp: get_overall_hash_def)

text \<open>
  C1, as amended: in a round with at least one collected answer, where every answer is
  an object that carries an \<^verbatim>\<open>overall_hash\<close>, the accepted fingerprint is a most frequent
  \<^verbatim>\<open>overall_hash\<close> among the answers; when several fingerprints share the highest
  count, the one selected is the one that comes first in the iteration order of the
  Python set built from the fingerprints (whatever that order is), not the one that
  appears first among the responses.
\<close>

theorem most_common_hash_set_order:
  assumes "overall_hashes_of miner_answers = Inr overall_hashes" and "miner_answers \<noteq> []"
    and "distinct (iter overall_hashes)" and "set (iter overall_hashes) = set overall_hashes"
  shows "\<exists>h. most_common_hash iter overall_hashes = Inr h \<and> h \<in> set overall_hashes \<and>
             (\<forall>h'. count_list overall_hashes h' \<le> count_list overall_hashes h) \<and>
             (\<forall>h' \<in> set (takeWhile (\<lambda>x. x \<noteq> h) (iter overall_hashes)).
                 count_list overall_hashes h' < count_list overall_hashes h)"
proof -
  from assms(1,2) have "overall_hashes \<noteq> []" using overall_hashes_of_length by fastforce
  with assms(4) have "iter overall_hashes \<noteq> []" by auto
  from py_max_first_greatest[OF this, of "count_list overall_hashes"] obtain m where
    m: "py_max (iter overall_hashes) (count_list overall_hashes) = Inr m" "m \<in> set (iter overall_hashes)"
      "\<forall>y \<in> set (iter overall_hashes). count_list overall_hashes y \<le> count_list overall_hashes m"
      "\<forall>y \<in> set (takeWhile (\<lambda>x. x \<noteq> m) (iter overall_hashes)).
          count_list overall_hashes y < count_list overall_hashes m"
    by blast
  have "count_list overall_hashes h' \<le> count_list overall_hashes m" for h'
  proof (cases "h' \<in> set overall_hashes")
    case True
    with m(3) assms(4) show ?thesis by simp
  next
    case False
    then have "count_list overall_hashes h' = 0" by (simp add: count_list_0_iff)
    then show ?thesis by simp
  qed
  with m assms(4) show ?thesis unfolding most_common_hash_def by blast
qed

theorem most_common_hash_set_order_witness:
  "most_common_hash remdups [''A'', ''A'', ''B'', ''A'', ''B''] = Inr ''A''"
proof -
  let ?ans = "\<lambda>h. Some \<lparr>overall_hash = Some h, data = None, other_keys = []\<rparr>"
  have a: "overall_hashes_of [?ans ''A'', ?ans ''A'', ?ans ''B'', ?ans ''A'', ?ans ''B'']
        = Inr [''A'', ''A'', ''B'', ''A'', ''B'']"
    by (simp add: get_overall_hash_def)
  have b: "[?ans ''A'', ?ans ''A'', ?ans ''B'', ?ans ''A'', ?ans ''B''] \<noteq> []" by simp
  have c: "distinct (remdups [''A'', ''A'', ''B'', ''A'', ''B''])" by simp
  have d: "set (remdups [''A'', ''A'', ''B'', ''A'', ''B'']) = set [''A'', ''A'', ''B'', ''A'', ''B'']" by auto
  from most_common_hash_set_order[of _ _ remdups, OF a b c d] obtain h where
    h: "most_common_hash remdups [''A'', ''A'', ''B'', ''A'', ''B''] = Inr h"
       "\<forall>h'. count_list [''A'', ''A'', ''B'', ''A'', ''B''] h' \<le> count_list [''A'', ''A'', ''B'', ''A'', ''B''] h"
    by blast
  from h(2) have "count_list [''A'', ''A'', ''B'', ''A'', ''B''] ''A'' \<le> count_list [''A'', ''A'', ''B'', ''A'', ''B''] h"
    by blast
  then have "h = ''A''" by (simp split: if_splits)
  with h(1) show ?thesis by simp
qed

text \<open>
  C1 as stated fails on a tie: for the responses \<^verbatim>\<open>[A, B]\<close> the first-seen fingerprint
  is \<^verbatim>\<open>A\<close>, and a set that iterates \<^verbatim>\<open>B\<close> before \<^verbatim>\<open>A\<close> (CPython does so for these
  two strings under most hash seeds) makes the code select \<^verbatim>\<open>B\<close>.
\<close>

theorem most_common_hash_not_first_seen:
  "first_seen_most_frequent [''A'', ''B''] = Inr ''A'' \<and>
   distinct ((rev \<circ> remdups) [''A'', ''B'']) \<and>
   set ((rev \<circ> remdups) [''A'', ''B'']) = set [''A'', ''B''] \<and>
   most_common_hash (rev \<circ> remdups) [''A'', ''B''] = Inr ''B''"
  by (simp add: first_seen_most_frequent_def most_common_hash_def py_max_def insert_commute)

section \<open>Rounding to double precision\<close>

lemma bitlen_lower_rat:
  assumes "0 < p"
  shows "(2::rat) powi (bitlen p - 1) \<le> of_int p"
proof -
  from assms have b: "1 \<le> bitlen p" by (simp add: bitlen_alt_def)
  from bitlen_bounds[OF assms] have "2 ^ nat (bitlen p - 1) \<le> p" by simp
  then have "(of_int (2 ^ nat (bitlen p - 1)) :: rat) \<le> of_int p" by (simp only: of_int_le_iff)
  moreover from b have "(2::rat) powi (bitlen p - 1) = 2 ^ nat (bitlen p - 1)"
    by (simp add: power_int_def)
  ultimately show ?thesis by simp
qed

lemma bitlen_upper_rat:
  assumes "0 < q"
  shows "(of_int q :: rat) < 2 powi (bitlen q)"
proof -
  have b: "0 \<le> bitlen q" by (rule bitlen_nonneg)
  from bitlen_bounds[OF assms] have "q < 2 ^ nat (bitlen q)" by simp
  then have "(of_int q :: rat) < of_int (2 ^ nat (bitlen q))" by (simp only: of_int_less_iff)
  moreover from b have "(2::rat) powi (bitlen q) = 2 ^ nat (bitlen q)"
    by (simp add: power_int_def)
  ultimately show ?thesis by simp
qed


lemma ilog2_upper:
  assumes "0 < x"
  shows "x < 2 powi (ilog2 x + 1)"
proof -
  obtain p q where pq: "quotient_of x = (p, q)" by (cases "quotient_of x")
  then have q: "0 < q" by (rule quotient_of_denom_pos)
  from pq have x: "x = of_int p / of_int q" by (rule quotient_of_div)
  with assms q have p: "0 < p" by (simp add: zero_less_divide_iff)
  let ?k = "bitlen p - bitlen q"
  have "x < 2 powi (?k + 1)"
  proof -
    have "of_int p / of_int q < (2::rat) powi (bitlen p) / of_int q"
      using bitlen_upper_rat[OF p] q by (simp add: divide_strict_right_mono)
    also have "\<dots> \<le> 2 powi (bitlen p) / 2 powi (bitlen q - 1)"
      using bitlen_lower_rat[OF q] q by (intro divide_left_mono) (simp_all add: zero_less_mult_iff)
    also have "\<dots> = 2 powi (?k + 1)"
      by (simp add: power_int_diff power_int_add)
    finally show ?thesis using x by simp
  qed
  then show ?thesis
    by (cases "2 powi ?k \<le> x") (auto simp: ilog2_def pq)
qed







section \<open>Scores and weights\<close>





lemma keys_dict_set: "fst ` set (dict_set d k v) = insert k (fst ` set d)"
  by (induction d) (force split: if_splits)+

lemma distinct_dict_set: "distinct (map fst d) \<Longrightarrow> distinct (map fst (dict_set d k v))"
  by (induction d) (auto simp: keys_dict_set)























section \<open>Verification, rounds and the loop\<close>

lemma check_miner_answer_raises:
  "check_miner_answer ev prompt answer =
     Inl (case prompt of None \<Rightarrow> AttributeError | Some p \<Rightarrow> NameError)"
  by (simp add: check_miner_answer_def rust_backend_def split: option.splits)

text \<open>
  C6 does not hold on the code: \<^verbatim>\<open>check_miner_answer\<close> never draws a record. For a job
  description that is an object, its first statement after the four \<^verbatim>\<open>get\<close> calls,
  \<^verbatim>\<open>rust_backend.fetch_block_range(...)\<close>, raises \<^verbatim>\<open>NameError\<close>, and for the job
  description \<^verbatim>\<open>None\<close>, which is the one \<^verbatim>\<open>validate_step\<close> passes, the first \<^verbatim>\<open>get\<close>
  raises \<^verbatim>\<open>AttributeError\<close>. For an answer whose only record has no block number the
  claim asks for \<^verbatim>\<open>False\<close> and a round that ends with no vote; the code raises, and
  the exception leaves \<^verbatim>\<open>validate_step\<close>.
\<close>

theorem check_miner_answer_name_error:
  "check_miner_answer agreeing_env (Some example_prompt) (Some bad_answer) = Inl NameError \<and>
   check_miner_answer agreeing_env None (Some bad_answer) = Inl AttributeError"
  by (simp add: check_miner_answer_def rust_backend_def)

lemma null_answer_aborts:
  assumes "None \<in> set (map (miner_reply ev prompt) (map snd modules_info))"
  shows "\<exists>e. validate_step_body ev modules_info prompt = Inl e"
proof -
  from assms obtain e where "overall_hashes_of (map (miner_reply ev prompt) (map snd modules_info)) = Inl e"
    using overall_hashes_of_None by blast
  then show ?thesis by (simp add: validate_step_body_def Let_def)
qed

text \<open>
  No round returns: a round that gets as far as the verification raises there, whatever
  the job description is.
\<close>

lemma validate_step_body_raises:
  "\<exists>e. validate_step_body ev modules_info prompt = Inl e"
  by (auto simp: validate_step_body_def Let_def check_miner_answer_raises
      split: sum.splits list.splits)

lemma validate_step_with_always_raises:
  "\<exists>e. fst (validate_step_with g ev d) = Inl e"
proof (cases "g d")
  case (Pair r d')
  show ?thesis
  proof (cases r)
    case (Inl e)
    with Pair show ?thesis by (simp add: validate_step_with_def Let_def)
  next
    case (Inr prompt)
    with Pair validate_step_body_raises show ?thesis
      by (simp add: validate_step_with_def Let_def)
  qed
qed

lemma validate_step_always_raises:
  "\<exists>e. fst (validate_step ev d) = Inl e"
  unfolding validate_step_def by (rule validate_step_with_always_raises)

text \<open>
  C2 does not hold on the code: the consensus step subscripts every collected answer,
  \<^verbatim>\<open>miner_answer['overall_hash']\<close>, and a \<^verbatim>\<open>None\<close> answer makes that raise
  \<^verbatim>\<open>TypeError\<close>. With 3 of 8 workers answering \<^verbatim>\<open>None\<close> and 5 returning the same valid
  answer, the round ends with the exception and no vote.
\<close>

theorem null_answer_raises:
  "validate_step null_isolation_env end_to_end_db = (Inl TypeError, end_to_end_db)"
  by (simp add: validate_step_def get_miner_prompt_def validate_step_with_def
      null_isolation_env_def example_env_def get_ip_port_def
      get_time_range_def fetch_incompleted_time_range_def
      end_to_end_db_def validate_step_body_def get_overall_hash_def good_answer_def Let_def)

text \<open>
  What a round does to the ledger: after the prompt is generated nothing is written, so
  the state a round leaves is the initial one or the one the prompt generator left. With
  the generator of the source, the token-pair relations and the archive are unchanged
  and the timetable is the old one followed by at most one new, incomplete window.
\<close>

lemma get_time_range_only_adds:
  "token_pairs (snd (get_time_range d)) = token_pairs d \<and>
   archive (snd (get_time_range d)) = archive d \<and>
   (\<exists>created. timetable (snd (get_time_range d)) = timetable d @ created \<and>
               length created \<le> 1 \<and> (\<forall>row \<in> set created. \<not> completed row))"
  by (auto simp: get_time_range_def date_add_days_def add_timetable_entry_def Let_def
      split: list.splits option.splits)

lemma validate_step_with_db:
  "snd (validate_step_with g ev d) = d \<or> snd (validate_step_with g ev d) = snd (g d)"
  by (cases "g d") (auto simp: validate_step_with_def Let_def split: sum.splits)

lemma get_miner_prompt_db: "snd (get_miner_prompt d) = snd (get_time_range d)"
  by (cases "get_time_range d") (auto simp: get_miner_prompt_def split: sum.splits)

lemma validate_step_ledger_effect:
  "(snd (validate_step_with g ev d) = d \<or> snd (validate_step_with g ev d) = snd (g d)) \<and>
   token_pairs (snd (validate_step ev d)) = token_pairs d \<and>
   archive (snd (validate_step ev d)) = archive d \<and>
   (\<exists>created. timetable (snd (validate_step ev d)) = timetable d @ created \<and>
               length created \<le> 1 \<and> (\<forall>row \<in> set created. \<not> completed row))"
proof -
  have g: "snd (validate_step_with g ev d) = d \<or> snd (validate_step_with g ev d) = snd (g d)"
    by (rule validate_step_with_db)
  have "snd (validate_step ev d) = d \<or> snd (validate_step ev d) = snd (get_time_range d)"
    using validate_step_with_db[of get_miner_prompt ev d]
    by (simp add: validate_step_def get_miner_prompt_db)
  then show ?thesis
  proof
    assume "snd (validate_step ev d) = d"
    with g show ?thesis by simp
  next
    assume "snd (validate_step ev d) = snd (get_time_range d)"
    with g get_time_range_only_adds[of d] show ?thesis by simp
  qed
qed





end
